theory Spec2Isabelle
  imports Main
begin

unbundle bit_operations_syntax

section \<open>Data model of nobuild.h\<close>

text \<open>
  Pointers are optional addresses: \<open>None\<close> is the C \<open>NULL\<close>. A character array is
  modelled by the bytes that have been written to it (\<open>cbuf\<close>); the string it holds, as
  every C string function reads it, ends before the first \<open>NUL\<close> byte.
\<close>

type_synonym addr = nat
type_synonym cbuf = "char list"

definition NUL :: char where
  "NUL = CHR 0x00"

definition DEFAULT_CAPACITY :: nat where
  "DEFAULT_CAPACITY = 128 - 8"

definition FLAG_CAPACITY :: nat where
  "FLAG_CAPACITY = DEFAULT_CAPACITY"

definition OBJECT_CAPACITY :: nat where
  "OBJECT_CAPACITY = DEFAULT_CAPACITY"

definition CC_CAPACITY :: nat where
  "CC_CAPACITY = DEFAULT_CAPACITY"

definition OUT_CAPACITY :: nat where
  "OUT_CAPACITY = DEFAULT_CAPACITY"

text \<open>
  \<open>flag_t\<close> and \<open>object_t\<close> are two structs of the same shape: a name array and the
  private link \<open>__next\<close> (here \<open>next_ptr\<close>). The source handles both through the same
  macros, so one record stands for both.
\<close>

record named_item =
  name :: cbuf
  next_ptr :: "addr option"

type_synonym flag_t = named_item
type_synonym object_t = named_item
type_synonym item_heap = "addr \<rightharpoonup> named_item"

record compiler_t =
  cmd :: cbuf
  flags :: "addr option"

text \<open>The field \<open>output\<close> of the source is \<open>output_name\<close> here.\<close>

record build_rule_t =
  target :: "addr option"
  dependencies :: "addr option"
  cc :: "addr option"
  output_name :: cbuf

text \<open>
  The store: one heap per struct type. Objects of the caller (such as a target declared as a
  local variable) live in the heap of their type as well.
\<close>

record memory =
  flag_mem :: item_heap
  object_mem :: item_heap
  compiler_mem :: "addr \<rightharpoonup> compiler_t"
  rule_mem :: "addr \<rightharpoonup> build_rule_t"

text \<open>
  What the C program does outside its defined behaviour is a value of the model:
  dereferencing \<open>NULL\<close>, following a pointer to no live object, overflowing \<open>int\<close>,
  writing past the end of an array.
\<close>

datatype fault = NullDeref | Dangling | IntOverflow | OutOfBounds

subsection \<open>C strings\<close>

text \<open>
  \<open>strlen\<close> counts the bytes before the first \<open>NUL\<close>. For an array that holds no
  \<open>NUL\<close> at all the C function runs on into the bytes that follow the array; the model
  counts the bytes of the array only.
\<close>

definition strlen :: "cbuf \<Rightarrow> nat" where
  "strlen s = length (takeWhile (\<lambda>c. c \<noteq> NUL) s)"

definition c_str :: "cbuf \<Rightarrow> string" where
  "c_str s = takeWhile (\<lambda>c. c \<noteq> NUL) s"

definition terminated :: "cbuf \<Rightarrow> bool" where
  "terminated s = (NUL \<in> set s)"

text \<open>
  \<open>strncpy(dst, src, n)\<close> writes exactly \<open>n\<close> bytes: the bytes of \<open>src\<close> up to its
  terminator, at most \<open>n\<close> of them, then \<open>NUL\<close> bytes up to \<open>n\<close>. When \<open>src\<close>
  holds \<open>n\<close> or more bytes no \<open>NUL\<close> is written.
\<close>

definition strncpy :: "cbuf \<Rightarrow> nat \<Rightarrow> cbuf" where
  "strncpy src n = take n (c_str src) @ replicate (n - strlen src) NUL"

subsection \<open>Object creation macros\<close>

text \<open>
  \<open>FLAG\<close>, \<open>OBJECT\<close> and \<open>COMPILER\<close> build a struct value from a string literal of
  at most as many bytes as the array has: the array is initialised with the literal and
  filled with \<open>NUL\<close> bytes, and the pointer is \<open>NULL\<close>.
\<close>

definition FLAG :: "string \<Rightarrow> flag_t" where
  "FLAG s = \<lparr>name = s @ replicate (FLAG_CAPACITY - length s) NUL, next_ptr = None\<rparr>"

definition OBJECT :: "string \<Rightarrow> object_t" where
  "OBJECT s = \<lparr>name = s @ replicate (OBJECT_CAPACITY - length s) NUL, next_ptr = None\<rparr>"

definition COMPILER :: "string \<Rightarrow> compiler_t" where
  "COMPILER s = \<lparr>cmd = s @ replicate (CC_CAPACITY - length s) NUL, flags = None\<rparr>"

section \<open>Named-item lists\<close>

subsection \<open>Node allocation (DEFINE\_ALLOC\_FN)\<close>

text \<open>
  \<open>__flag_t_alloc\<close> and \<open>__object_t_alloc\<close>, the two instances of the macro, are
  \<open>item_alloc\<close> at the capacity of their type.
  The result of \<open>malloc\<close> is an input of the model: \<open>None\<close> when the allocation fails,
  otherwise the address of the new block. The block exists in the heap from \<open>malloc\<close> to
  \<open>free\<close>; its fields are written before the function returns it.
\<close>

definition item_alloc :: "nat \<Rightarrow> addr option \<Rightarrow> item_heap \<Rightarrow> named_item \<Rightarrow> addr option \<times> item_heap" where
  "item_alloc CAPACITY m h copy =
     (case m of
        None \<Rightarrow> (None, h)
      | Some allocated \<Rightarrow>
          (let h1 = h(allocated \<mapsto> \<lparr>name = [], next_ptr = None\<rparr>);
               len = strlen (name copy)
           in if len > CAPACITY - 1 then (None, h1(allocated := None))
              else (Some allocated,
                    h1(allocated \<mapsto> \<lparr>name = take len (name copy) @ [NUL], next_ptr = None\<rparr>))))"

subsection \<open>Appending (LIST\_PUSH\_BACK)\<close>

text \<open>The loop that walks to the last node: \<open>for (; ptr != NULL; ptr = ptr->__next) prev = ptr;\<close>\<close>

partial_function (option) LIST_PUSH_BACK_loop ::
  "item_heap \<Rightarrow> addr option \<Rightarrow> addr option \<Rightarrow> (fault + addr option) option" where
  "LIST_PUSH_BACK_loop h ptr prev =
     (case ptr of
        None \<Rightarrow> Some (Inr prev)
      | Some a \<Rightarrow>
          (case h a of
             None \<Rightarrow> Some (Inl Dangling)
           | Some n \<Rightarrow> LIST_PUSH_BACK_loop h (next_ptr n) (Some a)))"

declare LIST_PUSH_BACK_loop.simps [code]

text \<open>
  The macro assigns the result of the allocation to the head when the list is empty and to
  the link of the last node otherwise. It returns the head and the heap after the call.
\<close>

definition LIST_PUSH_BACK ::
  "nat \<Rightarrow> addr option \<Rightarrow> item_heap \<Rightarrow> addr option \<Rightarrow> named_item
   \<Rightarrow> (fault + addr option \<times> item_heap) option" where
  "LIST_PUSH_BACK CAPACITY m h HEAD OBJ =
     (case LIST_PUSH_BACK_loop h HEAD None of
        None \<Rightarrow> None
      | Some (Inl e) \<Rightarrow> Some (Inl e)
      | Some (Inr prev) \<Rightarrow>
          (case item_alloc CAPACITY m h OBJ of
             (p, h') \<Rightarrow>
               (case prev of
                  None \<Rightarrow> Some (Inr (p, h'))
                | Some l \<Rightarrow>
                    (case h' l of
                       None \<Rightarrow> Some (Inl Dangling)
                     | Some n \<Rightarrow> Some (Inr (HEAD, h'(l \<mapsto> n\<lparr>next_ptr := p\<rparr>)))))))"

definition ADD_FLAG ::
  "addr option \<Rightarrow> item_heap \<Rightarrow> addr option \<Rightarrow> flag_t \<Rightarrow> (fault + addr option \<times> item_heap) option" where
  "ADD_FLAG m h flags_head flag = LIST_PUSH_BACK FLAG_CAPACITY m h flags_head flag"

definition ADD_OBJECT ::
  "addr option \<Rightarrow> item_heap \<Rightarrow> addr option \<Rightarrow> object_t \<Rightarrow> (fault + addr option \<times> item_heap) option" where
  "ADD_OBJECT m h objects_head object = LIST_PUSH_BACK OBJECT_CAPACITY m h objects_head object"

text \<open>
  A well-formed list: following the links from \<open>p\<close> visits the live nodes at the addresses
  \<open>as\<close>, in this order, and ends at \<open>NULL\<close>.
\<close>

fun is_list :: "item_heap \<Rightarrow> addr option \<Rightarrow> addr list \<Rightarrow> bool" where
  "is_list h p [] = (p = None)"
| "is_list h p (a # as) =
     (p = Some a \<and> (case h a of None \<Rightarrow> False | Some n \<Rightarrow> is_list h (next_ptr n) as))"

text \<open>The names read by walking the list, each as a C string.\<close>

definition names_at :: "item_heap \<Rightarrow> addr list \<Rightarrow> string list" where
  "names_at h as = map (\<lambda>a. case h a of None \<Rightarrow> [] | Some n \<Rightarrow> c_str (name n)) as"

text \<open>The name arrays of the nodes of a list, as they are stored.\<close>

definition buffers_at :: "item_heap \<Rightarrow> addr list \<Rightarrow> cbuf list" where
  "buffers_at h as = map (\<lambda>a. case h a of None \<Rightarrow> [] | Some n \<Rightarrow> name n) as"


text \<open>
  A caller appends one item after the other, as the demonstration driver does with
  \<open>ADD_FLAG(&flag_list, ...)\<close>: the head and the heap of one call are those the next call
  starts from. Each call comes with the result of its \<open>malloc\<close>.
\<close>

fun append_all ::
  "(addr option \<Rightarrow> item_heap \<Rightarrow> addr option \<Rightarrow> named_item \<Rightarrow> (fault + addr option \<times> item_heap) option)
   \<Rightarrow> (addr option \<times> named_item) list \<Rightarrow> item_heap \<Rightarrow> addr option
   \<Rightarrow> (fault + addr option \<times> item_heap) option" where
  "append_all add [] h head = Some (Inr (head, h))"
| "append_all add ((m, x) # rest) h head =
     (case add m h head x of
        Some (Inr (head', h')) \<Rightarrow> append_all add rest h' head'
      | r \<Rightarrow> r)"

text \<open>The node that a successful allocation writes for the item \<open>x\<close>.\<close>

definition stored :: "named_item \<Rightarrow> named_item" where
  "stored x = \<lparr>name = take (strlen (name x)) (name x) @ [NUL], next_ptr = None\<rparr>"

section \<open>Compiler descriptor and build rule\<close>

subsection \<open>Initialisers and setters\<close>

text \<open>
  \<open>INIT_CC\<close> and \<open>INIT_RULE\<close> use the result of \<open>malloc\<close> without a check, and their
  \<open>memset\<close> clears \<open>sizeof(*array)\<close> bytes, which is the first byte of the array only.
\<close>

definition INIT_CC :: "addr option \<Rightarrow> memory \<Rightarrow> fault + addr option \<times> memory" where
  "INIT_CC m mem =
     (case m of
        None \<Rightarrow> Inl NullDeref
      | Some p \<Rightarrow>
          Inr (Some p, mem\<lparr>compiler_mem := (compiler_mem mem)(p \<mapsto> \<lparr>cmd = [NUL], flags = None\<rparr>)\<rparr>))"

definition INIT_RULE :: "addr option \<Rightarrow> memory \<Rightarrow> fault + addr option \<times> memory" where
  "INIT_RULE m mem =
     (case m of
        None \<Rightarrow> Inl NullDeref
      | Some p \<Rightarrow>
          Inr (Some p,
               mem\<lparr>rule_mem := (rule_mem mem)(p \<mapsto>
                 \<lparr>target = None, dependencies = None, cc = None, output_name = [NUL]\<rparr>)\<rparr>))"

definition SET_CC :: "memory \<Rightarrow> addr option \<Rightarrow> cbuf \<Rightarrow> fault + memory" where
  "SET_CC mem cc_ptr cc_str =
     (case cc_ptr of
        None \<Rightarrow> Inl NullDeref
      | Some p \<Rightarrow>
          (case compiler_mem mem p of
             None \<Rightarrow> Inl Dangling
           | Some c \<Rightarrow>
               Inr (mem\<lparr>compiler_mem := (compiler_mem mem)(p \<mapsto> c\<lparr>cmd := strncpy cc_str CC_CAPACITY\<rparr>)\<rparr>)))"

text \<open>\<open>SET_OUT\<close> bounds its copy by \<open>CC_CAPACITY\<close> too, as the source has it.\<close>

definition SET_OUT :: "build_rule_t \<Rightarrow> cbuf \<Rightarrow> build_rule_t" where
  "SET_OUT r out_str = r\<lparr>output_name := strncpy out_str CC_CAPACITY\<rparr>"

subsection \<open>Assembly (MAKE\_RULE)\<close>

text \<open>
  The output string is a \<open>const char*\<close>: \<open>None\<close> is a \<open>NULL\<close> argument, which
  \<open>strncpy\<close> dereferences.
\<close>

definition MAKE_RULE ::
  "memory \<Rightarrow> addr option \<Rightarrow> addr option \<Rightarrow> addr option \<Rightarrow> addr option \<Rightarrow> addr option
   \<Rightarrow> cbuf option \<Rightarrow> fault + memory" where
  "MAKE_RULE mem rule compiler flags_arg target_arg deps out =
     (if rule = None \<or> compiler = None \<or> deps = None then Inr mem
      else
        (case rule of
           None \<Rightarrow> Inl NullDeref
         | Some r \<Rightarrow>
             (case rule_mem mem r of
                None \<Rightarrow> Inl Dangling
              | Some R \<Rightarrow>
                  (let R1 = R\<lparr>cc := compiler\<rparr> in
                   case cc R1 of
                     None \<Rightarrow> Inl NullDeref
                   | Some c \<Rightarrow>
                       (case compiler_mem mem c of
                          None \<Rightarrow> Inl Dangling
                        | Some C \<Rightarrow>
                            (let C1 = C\<lparr>flags := flags_arg\<rparr> in
                             case out of
                               None \<Rightarrow> Inl NullDeref
                             | Some out_str \<Rightarrow>
                                 (let R2 = SET_OUT R1 out_str;
                                      R3 = R2\<lparr>target := target_arg\<rparr>;
                                      R4 = R3\<lparr>dependencies := deps\<rparr>
                                  in Inr (mem\<lparr>rule_mem := (rule_mem mem)(r \<mapsto> R4),
                                               compiler_mem := (compiler_mem mem)(c \<mapsto> C1)\<rparr>))))))))"

text \<open>What a reader of \<open>rule->target\<close> finds: the object the target pointer refers to.\<close>

definition rule_target :: "memory \<Rightarrow> addr \<Rightarrow> object_t option" where
  "rule_target mem r =
     (case rule_mem mem r of
        None \<Rightarrow> None
      | Some R \<Rightarrow> (case target R of None \<Rightarrow> None | Some t \<Rightarrow> object_mem mem t))"

subsection \<open>Release (cleanup)\<close>

text \<open>The two \<open>while\<close> loops: read the link of the node, free the node, go on with the link.\<close>

partial_function (option) free_list :: "item_heap \<Rightarrow> addr option \<Rightarrow> (fault + item_heap) option" where
  "free_list h p =
     (case p of
        None \<Rightarrow> Some (Inr h)
      | Some a \<Rightarrow>
          (case h a of
             None \<Rightarrow> Some (Inl Dangling)
           | Some n \<Rightarrow> free_list (h(a := None)) (next_ptr n)))"

declare free_list.simps [code]

definition cleanup :: "memory \<Rightarrow> addr option \<Rightarrow> (fault + memory) option" where
  "cleanup mem rule =
     (case rule of
        None \<Rightarrow> Some (Inr mem)
      | Some r \<Rightarrow>
          (case rule_mem mem r of
             None \<Rightarrow> Some (Inl Dangling)
           | Some R \<Rightarrow>
               (case free_list (object_mem mem) (dependencies R) of
                  None \<Rightarrow> None
                | Some (Inl e) \<Rightarrow> Some (Inl e)
                | Some (Inr oh) \<Rightarrow>
                    (case cc R of
                       None \<Rightarrow> Some (Inl NullDeref)
                     | Some c \<Rightarrow>
                         (case compiler_mem mem c of
                            None \<Rightarrow> Some (Inl Dangling)
                          | Some C \<Rightarrow>
                              (case free_list (flag_mem mem) (flags C) of
                                 None \<Rightarrow> None
                               | Some (Inl e) \<Rightarrow> Some (Inl e)
                               | Some (Inr fh) \<Rightarrow>
                                   (let cm = (case cc R of
                                                None \<Rightarrow> compiler_mem mem
                                              | Some c' \<Rightarrow> (compiler_mem mem)(c' := None))
                                    in Some (Inr (mem\<lparr>object_mem := oh, flag_mem := fh,
                                                       compiler_mem := cm,
                                                       rule_mem := (rule_mem mem)(r := None)\<rparr>)))))))))"


section \<open>Execution engine\<close>

text \<open>
  A computation that may fault or run forever: \<open>None\<close> is a run that does not end,
  \<open>Some (Inl e)\<close> a fault, \<open>Some (Inr x)\<close> the result \<open>x\<close>.
\<close>

definition andthen :: "(fault + 'a) option \<Rightarrow> ('a \<Rightarrow> (fault + 'b) option) \<Rightarrow> (fault + 'b) option" where
  "andthen m f = (case m of None \<Rightarrow> None | Some (Inl e) \<Rightarrow> Some (Inl e) | Some (Inr x) \<Rightarrow> f x)"

text \<open>Reading through a pointer: \<open>NULL\<close> and a pointer to no live object fault.\<close>

definition deref :: "(addr \<rightharpoonup> 'a) \<Rightarrow> addr option \<Rightarrow> (fault + 'a) option" where
  "deref h p =
     (case p of
        None \<Rightarrow> Some (Inl NullDeref)
      | Some a \<Rightarrow> (case h a of None \<Rightarrow> Some (Inl Dangling) | Some v \<Rightarrow> Some (Inr v)))"

subsection \<open>Serialisation into the argument vector\<close>

text \<open>
  An entry of \<open>argv\<close> is a \<open>char*\<close>: \<open>None\<close> for \<open>NULL\<close>, otherwise the array it
  points to, which is what \<open>execvp\<close> reads. \<open>calloc\<close> gives an array of \<open>NULL\<close>
  entries. \<open>int\<close> has 32 bits.
\<close>

type_synonym argv_t = "cbuf option list"

definition INT_MAX :: int where
  "INT_MAX = 2147483647"

text \<open>The counting loops: \<open>for (f = ...; f; f = f->__next) argc++;\<close>\<close>

partial_function (option) count_items :: "item_heap \<Rightarrow> addr option \<Rightarrow> int \<Rightarrow> (fault + int) option" where
  "count_items h f argc =
     (case f of
        None \<Rightarrow> Some (Inr argc)
      | Some a \<Rightarrow>
          (if argc \<ge> INT_MAX then Some (Inl IntOverflow)
           else (case h a of
                   None \<Rightarrow> Some (Inl Dangling)
                 | Some n \<Rightarrow> count_items h (next_ptr n) (argc + 1))))"

declare count_items.simps [code]

text \<open>
  The filling loops: \<open>for (f = ...; f; f = f->__next) argv[i++] = f->name;\<close>. The index
  is a natural number here: a store at or past the length of the array is a fault, and the
  length is within \<open>int\<close>.
\<close>

partial_function (option) fill_names ::
  "item_heap \<Rightarrow> addr option \<Rightarrow> argv_t \<Rightarrow> nat \<Rightarrow> (fault + argv_t \<times> nat) option" where
  "fill_names h f argv i =
     (case f of
        None \<Rightarrow> Some (Inr (argv, i))
      | Some a \<Rightarrow>
          (if i \<ge> length argv then Some (Inl OutOfBounds)
           else (case h a of
                   None \<Rightarrow> Some (Inl Dangling)
                 | Some n \<Rightarrow> fill_names h (next_ptr n) (argv[i := Some (name n)]) (i + 1))))"

declare fill_names.simps [code]

definition store_arg :: "argv_t \<Rightarrow> nat \<Rightarrow> cbuf option \<Rightarrow> (fault + argv_t) option" where
  "store_arg argv i p = (if i \<ge> length argv then Some (Inl OutOfBounds) else Some (Inr (argv[i := p])))"

datatype serialized = NoMemory | Argv argv_t

text \<open>
  Lines 358 to 397 of \<open>__build\<close>, for a rule \<open>R\<close> that passed the check of its first
  lines. \<open>calloc_ok\<close> tells whether \<open>calloc\<close> returns an array.
\<close>

definition serialize :: "bool \<Rightarrow> memory \<Rightarrow> build_rule_t \<Rightarrow> (fault + serialized) option" where
  "serialize calloc_ok mem R =
     andthen (deref (compiler_mem mem) (cc R)) (\<lambda>C.
     andthen (count_items (flag_mem mem) (flags C) 0) (\<lambda>argc1.
     andthen (count_items (object_mem mem) (dependencies R) argc1) (\<lambda>argc2.
     if argc2 > INT_MAX - (1 + 1 + 1 + 1 + 1) then Some (Inl IntOverflow)
     else if \<not> calloc_ok then Some (Inr NoMemory)
     else
     andthen (store_arg (replicate (nat (argc2 + (1 + 1 + 1 + 1 + 1))) None) 0 (Some (cmd C))) (\<lambda>argv.
     andthen (fill_names (flag_mem mem) (flags C) argv 1) (\<lambda>(argv, i).
     andthen (store_arg argv i (Some (''-o'' @ [NUL]))) (\<lambda>argv.
     andthen (store_arg argv (i + 1) (Some (output_name R))) (\<lambda>argv.
     andthen (deref (object_mem mem) (target R)) (\<lambda>T.
     andthen (store_arg argv (i + 2) (Some (name T))) (\<lambda>argv.
     andthen (fill_names (object_mem mem) (dependencies R) argv (i + 3)) (\<lambda>(argv, j).
     andthen (store_arg argv j None) (\<lambda>argv.
     Some (Inr (Argv argv)))))))))))))"

subsection \<open>Spawning and waiting\<close>

text \<open>
  How a process ends: by \<open>exit\<close> with a status, or killed by a signal, with or without a
  core dump. \<open>wait_status\<close> is the \<open>int\<close> that \<open>waitpid\<close> stores for it: the low
  eight bits of the exit status in bits 8 to 15, or the signal in bits 0 to 6 and the core
  flag in bit 7. \<open>WTERMSIG\<close>, \<open>WIFEXITED\<close> and \<open>WEXITSTATUS\<close> are the macros of
  \<open>sys/wait.h\<close> that read it, as the C library writes them.
\<close>

datatype process_end = Exited nat | Signaled nat bool

fun wait_status :: "process_end \<Rightarrow> int" where
  "wait_status (Exited c) = (int c mod 256) * 256"
| "wait_status (Signaled sig core) = int sig + (if core then 128 else 0)"

definition WTERMSIG :: "int \<Rightarrow> int" where
  "WTERMSIG status = status AND 0x7f"

definition WIFEXITED :: "int \<Rightarrow> bool" where
  "WIFEXITED status = (WTERMSIG status = 0)"

definition WEXITSTATUS :: "int \<Rightarrow> int" where
  "WEXITSTATUS status = drop_bit 8 (status AND 0xff00)"

definition EXIT_FAILURE :: nat where
  "EXIT_FAILURE = 1"

text \<open>
  What the system does at each call is an input of the model: whether \<open>calloc\<close> and
  \<open>fork\<close> succeed, whether \<open>execvp\<close> in the child replaces the program image, how the
  executed program ends, and whether \<open>waitpid\<close> stores the status of the child (it
  returns -1 and stores nothing when, for instance, the calling process ignores
  \<open>SIGCHLD\<close> or a signal handler interrupts the call).
\<close>

record env =
  calloc_ok :: bool
  fork_ok :: bool
  execvp_ok :: bool
  program_end :: process_end
  waitpid_ok :: bool

datatype event = Perror string | Fork | Execvp argv_t | Waitpid

text \<open>
  The child: \<open>execvp(argv[0], argv); perror("execvp"); exit(EXIT_FAILURE);\<close>. It ends as
  the executed program ends, or by the \<open>exit\<close> after a failed \<open>execvp\<close>.
\<close>

definition child_end :: "env \<Rightarrow> process_end" where
  "child_end e = (if execvp_ok e then program_end e else Exited EXIT_FAILURE)"

definition child_events :: "env \<Rightarrow> argv_t \<Rightarrow> event list" where
  "child_events e argv = (if execvp_ok e then [Execvp argv] else [Execvp argv, Perror ''execvp''])"

text \<open>
  \<open>__build\<close> (here \<open>u_build\<close>), in the process that calls it: the value it returns
  and what was done on the way. The status starts as 0 and the result of \<open>waitpid\<close> is
  not looked at.
\<close>

definition u_build :: "env \<Rightarrow> memory \<Rightarrow> addr option \<Rightarrow> (fault + int \<times> event list) option" where
  "u_build e mem rule =
     (case rule of
        None \<Rightarrow> Some (Inr (- 1, []))
      | Some r \<Rightarrow>
          (case rule_mem mem r of
             None \<Rightarrow> Some (Inl Dangling)
           | Some R \<Rightarrow>
               (if cc R = None \<or> target R = None \<or> dependencies R = None then Some (Inr (- 1, []))
                else
                  andthen (serialize (calloc_ok e) mem R) (\<lambda>s.
                    (case s of
                       NoMemory \<Rightarrow> Some (Inr (- 1, [Perror ''calloc'']))
                     | Argv argv \<Rightarrow>
                         (if \<not> fork_ok e then Some (Inr (- 1, [Fork, Perror ''fork'']))
                          else
                            (let status = (if waitpid_ok e then wait_status (child_end e) else 0);
                                 events = [Fork] @ child_events e argv @ [Waitpid]
                             in if WIFEXITED status \<and> WEXITSTATUS status = 0
                                then Some (Inr (0, events))
                                else Some (Inr (- 1, events)))))))))"

text \<open>\<open>BUILD\<close> without \<open>DEBUG\<close>: the same check, then \<open>__build\<close>.\<close>

definition BUILD :: "env \<Rightarrow> memory \<Rightarrow> addr option \<Rightarrow> (fault + int \<times> event list) option" where
  "BUILD e mem rule =
     (case rule of
        None \<Rightarrow> Some (Inr (- 1, []))
      | Some r \<Rightarrow>
          (case rule_mem mem r of
             None \<Rightarrow> Some (Inl Dangling)
           | Some R \<Rightarrow>
               (if cc R = None \<or> target R = None \<or> dependencies R = None then Some (Inr (- 1, []))
                else u_build e mem rule)))"


text \<open>The value a call returned, when it returned.\<close>

definition returned :: "(fault + int \<times> event list) option \<Rightarrow> int option" where
  "returned res = (case res of Some (Inr (v, _)) \<Rightarrow> Some v | _ \<Rightarrow> None)"

section \<open>The data of the demonstration driver\<close>

text \<open>
  The lists that \<open>example.c\<close> builds, at the addresses 1 and 2 of their heaps; its target
  \<open>test/main.c\<close>, a variable of the caller, at the address 0.
\<close>

definition example_flags :: item_heap where
  "example_flags =
     [1 \<mapsto> \<lparr>name = ''-Wall'' @ [NUL], next_ptr = Some 2\<rparr>,
      2 \<mapsto> \<lparr>name = ''-Wextra'' @ [NUL], next_ptr = None\<rparr>]"

definition example_objects :: item_heap where
  "example_objects =
     [0 \<mapsto> OBJECT ''test/main.c'',
      1 \<mapsto> \<lparr>name = ''test/foo.c'' @ [NUL], next_ptr = Some 2\<rparr>,
      2 \<mapsto> \<lparr>name = ''test/bar.c'' @ [NUL], next_ptr = None\<rparr>]"


text \<open>
  The store of \<open>example.c\<close> before \<open>MAKE_RULE\<close>: the compiler after \<open>INIT_CC\<close> and
  \<open>SET_CC(cc, "gcc")\<close>, the rule after \<open>INIT_RULE\<close>; and the store after
  \<open>MAKE_RULE(rule, cc, flag_list, &target, dependencies, "out")\<close>.
\<close>

definition example_fresh :: memory where
  "example_fresh =
     \<lparr>flag_mem = example_flags, object_mem = example_objects,
      compiler_mem = [1 \<mapsto> \<lparr>cmd = strncpy ''gcc'' CC_CAPACITY, flags = None\<rparr>],
      rule_mem = [1 \<mapsto> \<lparr>target = None, dependencies = None, cc = None, output_name = [NUL]\<rparr>]\<rparr>"

definition example_rule :: build_rule_t where
  "example_rule =
     \<lparr>target = Some 0, dependencies = Some 1, cc = Some 1,
      output_name = strncpy ''out'' CC_CAPACITY\<rparr>"

definition example_compiler :: compiler_t where
  "example_compiler = \<lparr>cmd = strncpy ''gcc'' CC_CAPACITY, flags = Some 1\<rparr>"

definition example_assembled :: memory where
  "example_assembled =
     \<lparr>flag_mem = example_flags, object_mem = example_objects,
      compiler_mem = [1 \<mapsto> example_compiler],
      rule_mem = [1 \<mapsto> example_rule]\<rparr>"

text \<open>
  Two runs of the system: in both the array is allocated, the child is created and the
  compiler it executes exits with code 1; in the first \<open>waitpid\<close> fails, in the second
  it stores the status.
\<close>

definition env_waitpid_fails :: env where
  "env_waitpid_fails =
     \<lparr>calloc_ok = True, fork_ok = True, execvp_ok = True, program_end = Exited 1, waitpid_ok = False\<rparr>"

definition env_compiler_fails :: env where
  "env_compiler_fails =
     \<lparr>calloc_ok = True, fork_ok = True, execvp_ok = True, program_end = Exited 1, waitpid_ok = True\<rparr>"

text \<open>The flag list of \<open>example.c\<close> after its first \<open>ADD_FLAG\<close>.\<close>

definition example_one_flag :: item_heap where
  "example_one_flag = [1 \<mapsto> \<lparr>name = ''-Wall'' @ [NUL], next_ptr = None\<rparr>]"

section \<open>Properties of the named-item lists\<close>


lemma is_list_Cons [simp]:
  "is_list h p (a # as) = (p = Some a \<and> (\<exists>n. h a = Some n \<and> is_list h (next_ptr n) as))"
  by (simp split: option.splits)

declare is_list.simps(2) [simp del]

lemma loop_on_list:
  "is_list h p as \<Longrightarrow>
   LIST_PUSH_BACK_loop h p prev = Some (Inr (if as = [] then prev else Some (last as)))"
proof (induction as arbitrary: p prev)
  case Nil
  then show ?case by (simp add: LIST_PUSH_BACK_loop.simps)
next
  case (Cons a as)
  then obtain n where n: "p = Some a" "h a = Some n" "is_list h (next_ptr n) as"
    by auto
  have "LIST_PUSH_BACK_loop h p prev = LIST_PUSH_BACK_loop h (next_ptr n) (Some a)"
    using n by (subst LIST_PUSH_BACK_loop.simps) simp
  also have "\<dots> = Some (Inr (if as = [] then Some a else Some (last as)))"
    by (rule Cons.IH [OF n(3)])
  finally show ?case by simp
qed

lemma is_list_unique: "is_list h p as \<Longrightarrow> is_list h p bs \<Longrightarrow> as = bs"
proof (induction as arbitrary: p bs)
  case Nil
  then show ?case by (cases bs) auto
next
  case (Cons a as)
  then show ?case by (cases bs) auto
qed

lemma is_list_suffix:
  "is_list h p (as @ b # bs) \<Longrightarrow> is_list h (Some b) (b # bs)"
  by (induction as arbitrary: p) auto

lemma is_list_distinct: "is_list h p as \<Longrightarrow> distinct as"
proof (induction as arbitrary: p)
  case Nil
  then show ?case by simp
next
  case (Cons a as)
  then obtain n where n: "p = Some a" "h a = Some n" "is_list h (next_ptr n) as"
    by auto
  have "a \<notin> set as"
  proof
    assume "a \<in> set as"
    then obtain us vs where "as = us @ a # vs" by (meson split_list)
    with n(3) have "is_list h (Some a) (a # vs)" using is_list_suffix by blast
    moreover have "is_list h (Some a) (a # as)" using n by simp
    ultimately have "a # vs = a # as" by (rule is_list_unique)
    with \<open>as = us @ a # vs\<close> show False by simp
  qed
  with Cons.IH [OF n(3)] show ?case by simp
qed

lemma is_list_upd_other:
  "u \<notin> set as \<Longrightarrow> is_list (h(u := v)) p as = is_list h p as"
  by (induction as arbitrary: p) auto

lemma is_list_in_dom: "is_list h p as \<Longrightarrow> set as \<subseteq> dom h"
  by (induction as arbitrary: p) auto

lemma is_list_last_link:
  "is_list h p as \<Longrightarrow> as \<noteq> [] \<Longrightarrow> \<exists>n. h (last as) = Some n \<and> next_ptr n = None"
  by (induction as arbitrary: p) auto

lemma is_list_snoc:
  "is_list h p as \<Longrightarrow> as \<noteq> [] \<Longrightarrow> h (last as) = Some n \<Longrightarrow> a \<notin> set as \<Longrightarrow> h' a = Some x \<Longrightarrow>
   next_ptr x = None \<Longrightarrow> (\<And>b. b \<noteq> a \<Longrightarrow> h' b = h b) \<Longrightarrow>
   is_list (h'(last as \<mapsto> n\<lparr>next_ptr := Some a\<rparr>)) p (as @ [a])"
proof (induction as arbitrary: p)
  case Nil
  then show ?case by simp
next
  case (Cons b bs)
  then obtain k where k: "p = Some b" "h b = Some k" "is_list h (next_ptr k) bs"
    by auto
  have d: "distinct (b # bs)" using Cons.prems(1) by (rule is_list_distinct)
  have ab: "a \<noteq> b" "a \<notin> set bs" using Cons.prems(4) by auto
  show ?case
  proof (cases "bs = []")
    case True
    then have "next_ptr k = None" using k(3) by simp
    with True Cons.prems(3,5,6) k ab show ?thesis by simp
  next
    case False
    have lb: "last bs \<noteq> b" using d False by (metis distinct.simps(2) last_in_set)
    have hl: "h (last bs) = Some n" using Cons.prems(3) False by simp
    have ih: "is_list (h'(last bs \<mapsto> n\<lparr>next_ptr := Some a\<rparr>)) (next_ptr k) (bs @ [a])"
      by (rule Cons.IH [OF k(3) False hl ab(2) Cons.prems(5) Cons.prems(6) Cons.prems(7)])
    have hb: "(h'(last bs \<mapsto> n\<lparr>next_ptr := Some a\<rparr>)) b = Some k"
      using lb k(2) Cons.prems(7) [of b] ab by simp
    have eq: "last (b # bs) = last bs" using False by simp
    have "is_list (h'(last bs \<mapsto> n\<lparr>next_ptr := Some a\<rparr>)) p (b # (bs @ [a]))"
      unfolding is_list_Cons using k(1) hb ih by blast
    then show ?thesis by (simp only: eq append_Cons)
  qed
qed


lemma take_strlen: "take (strlen s) s = c_str s"
  unfolding strlen_def c_str_def by (rule takeWhile_eq_take [symmetric])

lemma c_str_snoc_NUL: "c_str (c_str s @ [NUL]) = c_str s"
proof -
  let ?P = "\<lambda>c. c \<noteq> NUL"
  have "takeWhile ?P (takeWhile ?P s @ [NUL]) = takeWhile ?P s @ takeWhile ?P [NUL]"
    by (rule takeWhile_append2) (rule set_takeWhileD [THEN conjunct2])
  then show ?thesis unfolding c_str_def by simp
qed

lemma c_str_stored: "c_str (take (strlen s) s @ [NUL]) = c_str s"
  unfolding take_strlen by (rule c_str_snoc_NUL)

lemma item_alloc_none: "item_alloc CAPACITY None h x = (None, h)"
  by (simp add: item_alloc_def)

lemma item_alloc_too_long:
  "a \<notin> dom h \<Longrightarrow> CAPACITY - 1 < strlen (name x) \<Longrightarrow> item_alloc CAPACITY (Some a) h x = (None, h)"
  by (auto simp: item_alloc_def Let_def)

lemma item_alloc_ok:
  "strlen (name x) \<le> CAPACITY - 1 \<Longrightarrow>
   item_alloc CAPACITY (Some a) h x =
     (Some a, h(a \<mapsto> \<lparr>name = take (strlen (name x)) (name x) @ [NUL], next_ptr = None\<rparr>))"
  by (simp add: item_alloc_def Let_def)

lemma push_back_rejected:
  assumes l: "is_list h HEAD as"
    and a: "item_alloc CAPACITY m h x = (None, h)"
  shows "LIST_PUSH_BACK CAPACITY m h HEAD x = Some (Inr (HEAD, h))"
proof (cases "as = []")
  case True
  with l have "HEAD = None" by simp
  with loop_on_list [OF l, of None] True a show ?thesis
    by (simp add: LIST_PUSH_BACK_def)
next
  case False
  from is_list_last_link [OF l False] obtain n where n: "h (last as) = Some n" "next_ptr n = None"
    by blast
  have "h(last as \<mapsto> n\<lparr>next_ptr := None\<rparr>) = h"
    using n by (simp add: map_upd_triv)
  with loop_on_list [OF l, of None] False a n show ?thesis
    by (simp add: LIST_PUSH_BACK_def)
qed

lemma push_back_empty:
  assumes "strlen (name x) \<le> CAPACITY - 1"
  shows "LIST_PUSH_BACK CAPACITY (Some a) h None x = Some (Inr (Some a, h(a \<mapsto> stored x)))"
  using assms loop_on_list [of h None "[]" None]
  by (simp add: LIST_PUSH_BACK_def item_alloc_ok stored_def)

lemma push_back_nonempty:
  assumes l: "is_list h HEAD as" and ne: "as \<noteq> []" and n: "h (last as) = Some n"
    and fresh: "a \<notin> dom h" and short: "strlen (name x) \<le> CAPACITY - 1"
  shows "LIST_PUSH_BACK CAPACITY (Some a) h HEAD x =
           Some (Inr (HEAD, h(a \<mapsto> stored x, last as \<mapsto> n\<lparr>next_ptr := Some a\<rparr>)))"
proof -
  have "last as \<noteq> a" using fresh n by auto
  then show ?thesis
    using loop_on_list [OF l, of None] ne n short
    by (simp add: LIST_PUSH_BACK_def item_alloc_ok stored_def)
qed


lemma names_at_append: "names_at h (as @ bs) = names_at h as @ names_at h bs"
  by (simp add: names_at_def)

lemma names_at_cong:
  "(\<And>b. b \<in> set as \<Longrightarrow> map_option name (h' b) = map_option name (h b)) \<Longrightarrow> names_at h' as = names_at h as"
proof (induction as)
  case Nil
  then show ?case by (simp add: names_at_def)
next
  case (Cons b bs)
  have "map_option name (h' b) = map_option name (h b)" using Cons.prems by simp
  then have "(case h' b of None \<Rightarrow> [] | Some n \<Rightarrow> c_str (name n)) = (case h b of None \<Rightarrow> [] | Some n \<Rightarrow> c_str (name n))"
    by (cases "h' b"; cases "h b") auto
  moreover have "names_at h' bs = names_at h bs" using Cons by simp
  ultimately show ?case by (simp add: names_at_def)
qed

lemma push_back_step:
  assumes l: "is_list h HEAD as" and fresh: "a \<notin> dom h"
    and short: "strlen (name x) \<le> CAPACITY - 1"
  shows "\<exists>HEAD' h'. LIST_PUSH_BACK CAPACITY (Some a) h HEAD x = Some (Inr (HEAD', h'))
           \<and> is_list h' HEAD' (as @ [a])
           \<and> h' a = Some (stored x)
           \<and> (\<forall>b. b \<noteq> a \<longrightarrow> map_option name (h' b) = map_option name (h b))
           \<and> (\<forall>b. b \<noteq> a \<longrightarrow> (as = [] \<or> b \<noteq> last as) \<longrightarrow> h' b = h b)
           \<and> dom h' = insert a (dom h)"
proof (cases "as = []")
  case True
  with l have "HEAD = None" by simp
  then show ?thesis
    using True push_back_empty [OF short, of a h]
    by (simp add: stored_def)
next
  case False
  from is_list_last_link [OF l False] obtain n where n: "h (last as) = Some n" "next_ptr n = None"
    by blast
  let ?h' = "h(a \<mapsto> stored x, last as \<mapsto> n\<lparr>next_ptr := Some a\<rparr>)"
  have na: "a \<notin> set as" using is_list_in_dom [OF l] fresh by blast
  have la: "last as \<noteq> a" using fresh n by auto
  have 1: "LIST_PUSH_BACK CAPACITY (Some a) h HEAD x = Some (Inr (HEAD, ?h'))"
    by (rule push_back_nonempty [OF l False n(1) fresh short])
  have 2: "is_list ?h' HEAD (as @ [a])"
    by (rule is_list_snoc [OF l False n(1) na, where x = "stored x"]) (simp_all add: stored_def)
  have 3: "?h' a = Some (stored x)" using la by simp
  have 4: "\<forall>b. b \<noteq> a \<longrightarrow> map_option name (?h' b) = map_option name (h b)"
    using n by simp
  have 5: "\<forall>b. b \<noteq> a \<longrightarrow> (as = [] \<or> b \<noteq> last as) \<longrightarrow> ?h' b = h b"
    using False by simp
  have 6: "dom ?h' = insert a (dom h)" using n by auto
  from 1 2 3 4 5 6 show ?thesis by blast
qed

lemma append_all_on_list:
  assumes "is_list h HEAD as" "distinct addrs" "set addrs \<inter> dom h = {}"
    and "length xs = length addrs" "\<forall>x \<in> set xs. strlen (name x) \<le> CAPACITY - 1"
  shows "\<exists>HEAD' h'. append_all (LIST_PUSH_BACK CAPACITY) (zip (map Some addrs) xs) h HEAD = Some (Inr (HEAD', h'))
           \<and> is_list h' HEAD' (as @ addrs)
           \<and> names_at h' (as @ addrs) = names_at h as @ map (\<lambda>x. c_str (name x)) xs"
  using assms
proof (induction addrs arbitrary: xs h HEAD as)
  case Nil
  then show ?case by simp
next
  case (Cons a addrs)
  then obtain x xs' where xs: "xs = x # xs'" by (cases xs) auto
  have fresh: "a \<notin> dom h" using Cons.prems(3) by auto
  have short: "strlen (name x) \<le> CAPACITY - 1" using Cons.prems(5) xs by simp
  from push_back_step [OF Cons.prems(1) fresh short]
  obtain HEAD1 h1 where s: "LIST_PUSH_BACK CAPACITY (Some a) h HEAD x = Some (Inr (HEAD1, h1))"
      "is_list h1 HEAD1 (as @ [a])" "h1 a = Some (stored x)"
      "\<forall>b. b \<noteq> a \<longrightarrow> map_option name (h1 b) = map_option name (h b)"
      "dom h1 = insert a (dom h)"
    by blast
  have na: "a \<notin> set as" using is_list_in_dom [OF Cons.prems(1)] fresh by blast
  have n1: "names_at h1 (as @ [a]) = names_at h as @ [c_str (name x)]"
  proof -
    have "names_at h1 as = names_at h as"
      by (rule names_at_cong) (use na s(4) in auto)
    moreover have "names_at h1 [a] = [c_str (name x)]"
      using s(3) by (simp add: names_at_def stored_def c_str_stored)
    ultimately show ?thesis by (simp add: names_at_append)
  qed
  have "\<exists>HEAD' h'. append_all (LIST_PUSH_BACK CAPACITY) (zip (map Some addrs) xs') h1 HEAD1 = Some (Inr (HEAD', h'))
           \<and> is_list h' HEAD' ((as @ [a]) @ addrs)
           \<and> names_at h' ((as @ [a]) @ addrs) = names_at h1 (as @ [a]) @ map (\<lambda>x. c_str (name x)) xs'"
  proof (rule Cons.IH [OF s(2)])
    show "distinct addrs" using Cons.prems(2) by simp
    show "set addrs \<inter> dom h1 = {}" using Cons.prems(2,3) s(5) by auto
    show "length xs' = length addrs" using Cons.prems(4) xs by simp
    show "\<forall>x \<in> set xs'. strlen (name x) \<le> CAPACITY - 1" using Cons.prems(5) xs by simp
  qed
  then show ?case using s(1) n1 xs by simp
qed


lemma ADD_OBJECT_eq: "ADD_OBJECT = ADD_FLAG"
  by (intro ext) (simp add: ADD_OBJECT_def ADD_FLAG_def OBJECT_CAPACITY_def FLAG_CAPACITY_def)

text \<open>
  C4. An append whose node allocation fails, or whose item has a name of 120 bytes or more,
  adds nothing: \<open>ADD_FLAG\<close> and \<open>ADD_OBJECT\<close> end with the head and the whole heap
  exactly as they were (the same nodes, contents and order, and no block left allocated),
  and the allocation function returns \<open>NULL\<close>. The list is any well-formed list and
  \<open>malloc\<close>, when it succeeds, returns a block that was not live.
\<close>

theorem failed_append_leaves_list_unchanged:
  assumes "is_list h HEAD as"
    and "\<forall>a. m = Some a \<longrightarrow> a \<notin> dom h"
    and "m = None \<or> DEFAULT_CAPACITY \<le> strlen (name x)"
  shows "ADD_FLAG m h HEAD x = Some (Inr (HEAD, h))
       \<and> ADD_OBJECT m h HEAD x = Some (Inr (HEAD, h))
       \<and> fst (item_alloc DEFAULT_CAPACITY m h x) = None"
proof -
  have a: "item_alloc DEFAULT_CAPACITY m h x = (None, h)"
  proof (cases m)
    case None
    then show ?thesis by (simp add: item_alloc_none)
  next
    case (Some a)
    with assms(2,3) have "a \<notin> dom h" "DEFAULT_CAPACITY - 1 < strlen (name x)"
      by (auto simp: DEFAULT_CAPACITY_def)
    with Some show ?thesis by (simp add: item_alloc_too_long)
  qed
  from push_back_rejected [OF assms(1) a] a show ?thesis
    by (simp add: ADD_FLAG_def ADD_OBJECT_def FLAG_CAPACITY_def OBJECT_CAPACITY_def)
qed

theorem failed_append_leaves_list_unchanged_witness:
  "is_list example_flags (Some 1) [1, 2]
   \<and> 3 \<notin> dom example_flags
   \<and> DEFAULT_CAPACITY \<le> strlen (name \<lparr>name = replicate 120 CHR ''a'', next_ptr = None\<rparr>)
   \<and> ADD_FLAG (Some 3) example_flags (Some 1) \<lparr>name = replicate 120 CHR ''a'', next_ptr = None\<rparr>
       = Some (Inr (Some 1, example_flags))
   \<and> ADD_OBJECT None example_flags (Some 1) (OBJECT ''x.c'') = Some (Inr (Some 1, example_flags))"
proof -
  have l: "is_list example_flags (Some 1) [1, 2]"
    by (simp add: example_flags_def)
  have f: "\<forall>a. Some (3::nat) = Some a \<longrightarrow> a \<notin> dom example_flags"
    by (simp add: example_flags_def)
  have f': "\<forall>a. (None :: addr option) = Some a \<longrightarrow> a \<notin> dom example_flags"
    by simp
  have c: "DEFAULT_CAPACITY \<le> strlen (name \<lparr>name = replicate 120 CHR ''a'', next_ptr = None\<rparr>)"
    by (simp add: DEFAULT_CAPACITY_def strlen_def NUL_def)
  from failed_append_leaves_list_unchanged [OF l f disjI2, OF c]
    failed_append_leaves_list_unchanged [OF l f' disjI1, OF refl, of "OBJECT ''x.c''"]
    l f c
  show ?thesis by simp
qed


text \<open>
  C5. A successful append is one whose \<open>malloc\<close> returns a block that was not live and
  whose name is shorter than the capacity. N such appends to an empty list, through
  \<open>ADD_FLAG\<close> or \<open>ADD_OBJECT\<close>, end with a well-formed list of exactly the N new
  nodes, in the order of the calls, and walking it reads exactly the N names in that order.
  Each single successful append to a well-formed list adds the new node after the last one:
  the nodes are the old ones followed by the new one, the names of the old nodes are
  unchanged, and no old node is changed at all but the last, whose link is set to the new
  node.
\<close>

theorem appends_keep_order:
  assumes add: "add = ADD_FLAG \<or> add = ADD_OBJECT"
    and addrs: "distinct addrs" "set addrs \<inter> dom h0 = {}" "length xs = length addrs"
    and names: "\<forall>x \<in> set xs. strlen (name x) < DEFAULT_CAPACITY"
    and l: "is_list h HEAD as" and a: "a \<notin> dom h" and x: "strlen (name x) < DEFAULT_CAPACITY"
  shows "(\<exists>HEAD' h'. append_all add (zip (map Some addrs) xs) h0 None = Some (Inr (HEAD', h'))
            \<and> is_list h' HEAD' addrs
            \<and> names_at h' addrs = map (\<lambda>x. c_str (name x)) xs)
       \<and> (\<exists>HEAD' h'. add (Some a) h HEAD x = Some (Inr (HEAD', h'))
            \<and> is_list h' HEAD' (as @ [a])
            \<and> names_at h' (as @ [a]) = names_at h as @ [c_str (name x)]
            \<and> (\<forall>b. b \<noteq> a \<longrightarrow> map_option name (h' b) = map_option name (h b))
            \<and> (\<forall>b. b \<noteq> a \<longrightarrow> (as = [] \<or> b \<noteq> last as) \<longrightarrow> h' b = h b))"
proof -
  have eq: "add = LIST_PUSH_BACK DEFAULT_CAPACITY"
    using add by (auto simp: ADD_OBJECT_def ADD_FLAG_def OBJECT_CAPACITY_def FLAG_CAPACITY_def fun_eq_iff)
  have e: "is_list h0 None []" by simp
  have s: "\<forall>x \<in> set xs. strlen (name x) \<le> DEFAULT_CAPACITY - 1"
    using names by auto
  have 1: "\<exists>HEAD' h'. append_all add (zip (map Some addrs) xs) h0 None = Some (Inr (HEAD', h'))
            \<and> is_list h' HEAD' addrs
            \<and> names_at h' addrs = map (\<lambda>x. c_str (name x)) xs"
    using append_all_on_list [OF e addrs s] by (simp add: eq names_at_def)
  have x': "strlen (name x) \<le> DEFAULT_CAPACITY - 1" using x by simp
  from push_back_step [OF l a x']
  obtain HEAD' h' where p: "LIST_PUSH_BACK DEFAULT_CAPACITY (Some a) h HEAD x = Some (Inr (HEAD', h'))"
      "is_list h' HEAD' (as @ [a])" "h' a = Some (stored x)"
      "\<forall>b. b \<noteq> a \<longrightarrow> map_option name (h' b) = map_option name (h b)"
      "\<forall>b. b \<noteq> a \<longrightarrow> (as = [] \<or> b \<noteq> last as) \<longrightarrow> h' b = h b"
    by blast
  have na: "a \<notin> set as" using is_list_in_dom [OF l] a by blast
  have "names_at h' as = names_at h as"
    by (rule names_at_cong) (use na p(4) in auto)
  moreover have "names_at h' [a] = [c_str (name x)]"
    using p(3) by (simp add: names_at_def stored_def c_str_stored)
  ultimately have n: "names_at h' (as @ [a]) = names_at h as @ [c_str (name x)]"
    by (simp add: names_at_append)
  have 2: "\<exists>HEAD' h'. add (Some a) h HEAD x = Some (Inr (HEAD', h'))
            \<and> is_list h' HEAD' (as @ [a])
            \<and> names_at h' (as @ [a]) = names_at h as @ [c_str (name x)]
            \<and> (\<forall>b. b \<noteq> a \<longrightarrow> map_option name (h' b) = map_option name (h b))
            \<and> (\<forall>b. b \<noteq> a \<longrightarrow> (as = [] \<or> b \<noteq> last as) \<longrightarrow> h' b = h b)"
    using p n unfolding eq by blast
  from 1 2 show ?thesis by (rule conjI)
qed


theorem appends_keep_order_witness:
  "(\<exists>HEAD' h'. append_all ADD_FLAG (zip (map Some [1, 2]) [FLAG ''-Wall'', FLAG ''-Wextra'']) Map.empty None
        = Some (Inr (HEAD', h'))
      \<and> is_list h' HEAD' [1, 2]
      \<and> names_at h' [1, 2] = [''-Wall'', ''-Wextra''])
   \<and> (\<exists>HEAD' h'. ADD_FLAG (Some 3) example_flags (Some 1) (FLAG ''-O2'') = Some (Inr (HEAD', h'))
      \<and> is_list h' HEAD' ([1, 2] @ [3])
      \<and> names_at h' ([1, 2] @ [3]) = [''-Wall'', ''-Wextra''] @ [''-O2''])"
proof -
  have s: "\<forall>x \<in> set [FLAG ''-Wall'', FLAG ''-Wextra'']. strlen (name x) < DEFAULT_CAPACITY"
    "strlen (name (FLAG ''-O2'')) < DEFAULT_CAPACITY"
    by (simp_all add: strlen_def FLAG_def NUL_def FLAG_CAPACITY_def DEFAULT_CAPACITY_def)
  have c: "map (\<lambda>x. c_str (name x)) [FLAG ''-Wall'', FLAG ''-Wextra''] = [''-Wall'', ''-Wextra'']"
    "c_str (name (FLAG ''-O2'')) = ''-O2''"
    by (simp_all add: c_str_def FLAG_def NUL_def FLAG_CAPACITY_def DEFAULT_CAPACITY_def)
  have l: "is_list example_flags (Some 1) [1, 2]"
    by (simp add: example_flags_def)
  have n: "names_at example_flags [1, 2] = [''-Wall'', ''-Wextra'']"
    by (simp add: example_flags_def names_at_def c_str_def NUL_def)
  have a: "3 \<notin> dom example_flags"
    by (simp add: example_flags_def)
  have d: "distinct [1, 2 :: addr]" "set [1, 2 :: addr] \<inter> dom (Map.empty :: item_heap) = {}"
    "length [FLAG ''-Wall'', FLAG ''-Wextra''] = length [1, 2 :: addr]"
    by simp_all
  from appends_keep_order [OF disjI1 d s(1) l a s(2), OF refl]
  show ?thesis unfolding c n by blast
qed

section \<open>Properties of the assembly\<close>

lemma example_assembly:
  "MAKE_RULE example_fresh (Some 1) (Some 1) (Some 1) (Some 0) (Some 1) (Some ''out'') = Inr example_assembled"
  by (simp add: MAKE_RULE_def example_fresh_def example_assembled_def example_rule_def
      example_compiler_def SET_OUT_def Let_def)

text \<open>
  C7. When the rule reference is absent, the compiler reference is absent or the dependency
  list is empty, \<open>MAKE_RULE\<close> returns with the whole store as it was: no field of the rule
  and nothing of the compiler descriptor is written.
\<close>

theorem rejected_assembly_is_noop:
  assumes "rule = None \<or> compiler = None \<or> deps = None"
  shows "MAKE_RULE mem rule compiler flags_arg target_arg deps out = Inr mem"
  using assms by (simp add: MAKE_RULE_def)

theorem rejected_assembly_is_noop_witness:
  "MAKE_RULE example_fresh (Some 1) (Some 1) (Some 1) (Some 0) None (Some ''out'') = Inr example_fresh
   \<and> MAKE_RULE example_fresh (Some 1) None (Some 1) (Some 0) (Some 1) (Some ''out'') = Inr example_fresh
   \<and> MAKE_RULE example_fresh None (Some 1) (Some 1) (Some 0) (Some 1) (Some ''out'') = Inr example_fresh"
  using rejected_assembly_is_noop [of "Some 1" "Some 1" None example_fresh "Some 1" "Some 0" "Some ''out''"]
    rejected_assembly_is_noop [of "Some 1" None "Some 1" example_fresh "Some 1" "Some 0" "Some ''out''"]
    rejected_assembly_is_noop [of None "Some 1" "Some 1" example_fresh "Some 1" "Some 0" "Some ''out''"]
  by simp

text \<open>
  C9, as the claim states it, fails: after the assembly of \<open>example.c\<close> the rule's target
  is the caller's object at address 0, and writing another name into that object changes
  what the rule's target reads.
\<close>

theorem target_is_shared_counterexample:
  "MAKE_RULE example_fresh (Some 1) (Some 1) (Some 1) (Some 0) (Some 1) (Some ''out'') = Inr example_assembled
   \<and> rule_target (example_assembled\<lparr>object_mem := (object_mem example_assembled)(0 \<mapsto> OBJECT ''other.c'')\<rparr>) 1
       \<noteq> rule_target example_assembled 1"
proof -
  have "rule_target example_assembled 1 = Some (OBJECT ''test/main.c'')"
    by (simp add: rule_target_def example_assembled_def example_rule_def example_objects_def)
  moreover have "rule_target (example_assembled\<lparr>object_mem := (object_mem example_assembled)(0 \<mapsto> OBJECT ''other.c'')\<rparr>) 1
       = Some (OBJECT ''other.c'')"
    by (simp add: rule_target_def example_assembled_def example_rule_def)
  moreover have "OBJECT ''other.c'' \<noteq> OBJECT ''test/main.c''"
    by (simp add: OBJECT_def)
  ultimately show ?thesis using example_assembly by simp
qed

text \<open>
  C9, amended. On a successful assembly the rule holds the pointer to the caller's target
  object, not a copy of it: \<open>MAKE_RULE\<close> leaves the heap of objects as it is, the rule's
  target field is the pointer that was passed, and whatever is later written into the
  caller's object is what the rule's target reads.
\<close>

theorem target_is_stored_by_reference:
  assumes "MAKE_RULE mem (Some r) (Some c) flags_arg target_arg (Some d) out = Inr mem'"
  shows "object_mem mem' = object_mem mem
       \<and> map_option target (rule_mem mem' r) = Some target_arg
       \<and> (\<forall>t v. target_arg = Some t \<longrightarrow>
             rule_target (mem'\<lparr>object_mem := (object_mem mem')(t \<mapsto> v)\<rparr>) r = Some v)"
  using assms
  by (auto simp: MAKE_RULE_def SET_OUT_def Let_def rule_target_def split: option.splits)

theorem target_is_stored_by_reference_witness:
  "MAKE_RULE example_fresh (Some 1) (Some 1) (Some 1) (Some 0) (Some 1) (Some ''out'') = Inr example_assembled
   \<and> object_mem example_assembled = object_mem example_fresh
   \<and> map_option target (rule_mem example_assembled 1) = Some (Some 0)
   \<and> rule_target (example_assembled\<lparr>object_mem := (object_mem example_assembled)(0 \<mapsto> OBJECT ''other.c'')\<rparr>) 1
       = Some (OBJECT ''other.c'')"
  using target_is_stored_by_reference [OF example_assembly] example_assembly by blast

section \<open>Properties of the setters and of the release\<close>

lemma strncpy_length: "length (strncpy s n) = n"
  by (auto simp: strncpy_def strlen_def c_str_def)

lemma strncpy_short:
  assumes "strlen s < n"
  shows "c_str (strncpy s n) = c_str s \<and> terminated (strncpy s n)"
proof -
  let ?P = "\<lambda>c. c \<noteq> NUL"
  have t: "take n (c_str s) = c_str s"
    using assms by (simp add: strlen_def c_str_def)
  obtain k where k: "n - strlen s = Suc k"
    using assms by (cases "n - strlen s") auto
  have "takeWhile ?P (takeWhile ?P s @ replicate (Suc k) NUL) = takeWhile ?P s @ takeWhile ?P (replicate (Suc k) NUL)"
    by (rule takeWhile_append2) (rule set_takeWhileD [THEN conjunct2])
  then have "c_str (c_str s @ replicate (Suc k) NUL) = c_str s"
    unfolding c_str_def by simp
  then show ?thesis
    by (simp add: strncpy_def t k terminated_def)
qed

lemma strncpy_long:
  assumes "n \<le> strlen s"
  shows "strncpy s n = take n (c_str s) \<and> \<not> terminated (strncpy s n) \<and> length (take n (c_str s)) = n"
proof -
  have "NUL \<notin> set (c_str s)"
    unfolding c_str_def by (auto dest: set_takeWhileD)
  then have "NUL \<notin> set (take n (c_str s))"
    by (auto dest: in_set_takeD)
  then show ?thesis
    using assms by (simp add: strncpy_def terminated_def strlen_def c_str_def)
qed

text \<open>
  C10. \<open>SET_CC\<close> with a name of 120 bytes: the command array holds all 120 bytes of the
  name and no terminator. It is not the name cut to 119 bytes and terminated.
\<close>

theorem SET_CC_long_name_not_terminated:
  "SET_CC example_fresh (Some 1) (replicate 120 CHR ''a'')
     = Inr (example_fresh\<lparr>compiler_mem := [1 \<mapsto> \<lparr>cmd = replicate 120 CHR ''a'', flags = None\<rparr>]\<rparr>)
   \<and> \<not> terminated (replicate 120 CHR ''a'')
   \<and> replicate 120 CHR ''a'' \<noteq> replicate (CC_CAPACITY - 1) CHR ''a'' @ [NUL]"
proof -
  have s: "strncpy (replicate 120 CHR ''a'') CC_CAPACITY = replicate 120 CHR ''a''"
    by (simp add: strncpy_def c_str_def strlen_def NUL_def CC_CAPACITY_def DEFAULT_CAPACITY_def)
  have "SET_CC example_fresh (Some 1) (replicate 120 CHR ''a'')
     = Inr (example_fresh\<lparr>compiler_mem := [1 \<mapsto> \<lparr>cmd = replicate 120 CHR ''a'', flags = None\<rparr>]\<rparr>)"
    unfolding SET_CC_def s by (simp add: example_fresh_def)
  moreover have "\<not> terminated (replicate 120 CHR ''a'')"
    by (simp add: terminated_def NUL_def)
  moreover have "replicate 120 CHR ''a'' \<noteq> replicate (CC_CAPACITY - 1) CHR ''a'' @ [NUL]"
  proof
    assume "replicate 120 CHR ''a'' = replicate (CC_CAPACITY - 1) CHR ''a'' @ [NUL]"
    then have "set (replicate 120 CHR ''a'') = set (replicate (CC_CAPACITY - 1) CHR ''a'' @ [NUL])"
      by simp
    then show False by (simp add: NUL_def CC_CAPACITY_def DEFAULT_CAPACITY_def)
  qed
  ultimately show ?thesis by blast
qed

lemma free_list_NULL: "free_list h None = Some (Inr h)"
  by (simp add: free_list.simps)

lemma cleanup_without_compiler:
  assumes "rule_mem mem r = Some R" "dependencies R = None" "cc R = None"
  shows "cleanup mem (Some r) = Some (Inl NullDeref)"
  using assms by (simp add: cleanup_def free_list_NULL)

text \<open>
  C8. The rule of \<open>example.c\<close> as \<open>INIT_RULE\<close> leaves it, and as it still is after an
  assembly that was rejected for its empty dependency list: \<open>cleanup\<close> reads
  \<open>rule->cc->flags\<close> through the absent compiler.
\<close>

theorem cleanup_dereferences_absent_compiler:
  "INIT_RULE (Some 1) (example_fresh\<lparr>rule_mem := Map.empty\<rparr>) = Inr (Some 1, example_fresh)
   \<and> MAKE_RULE example_fresh (Some 1) (Some 1) (Some 1) (Some 0) None (Some ''out'') = Inr example_fresh
   \<and> cleanup example_fresh (Some 1) = Some (Inl NullDeref)"
proof -
  have "INIT_RULE (Some 1) (example_fresh\<lparr>rule_mem := Map.empty\<rparr>) = Inr (Some 1, example_fresh)"
    by (simp add: INIT_RULE_def example_fresh_def)
  moreover have "MAKE_RULE example_fresh (Some 1) (Some 1) (Some 1) (Some 0) None (Some ''out'') = Inr example_fresh"
    by (simp add: MAKE_RULE_def)
  moreover have "cleanup example_fresh (Some 1) = Some (Inl NullDeref)"
    by (rule cleanup_without_compiler [where R = "\<lparr>target = None, dependencies = None, cc = None, output_name = [NUL]\<rparr>"])
       (simp_all add: example_fresh_def)
  ultimately show ?thesis by blast
qed

section \<open>Properties of the execution engine\<close>

lemma count_items_on_list:
  "is_list h p as \<Longrightarrow> argc + int (length as) \<le> INT_MAX \<Longrightarrow>
   count_items h p argc = Some (Inr (argc + int (length as)))"
proof (induction as arbitrary: p argc)
  case Nil
  then show ?case by (simp add: count_items.simps)
next
  case (Cons a as)
  then obtain n where n: "p = Some a" "h a = Some n" "is_list h (next_ptr n) as"
    by auto
  have b: "\<not> argc \<ge> INT_MAX" "(argc + 1) + int (length as) \<le> INT_MAX"
    using Cons.prems(2) by simp_all
  have "count_items h p argc = count_items h (next_ptr n) (argc + 1)"
    using n b(1) by (subst count_items.simps) simp
  also have "\<dots> = Some (Inr ((argc + 1) + int (length as)))"
    by (rule Cons.IH [OF n(3) b(2)])
  finally show ?case by simp
qed

lemma fill_names_on_list:
  "is_list h p as \<Longrightarrow> i + length as \<le> length argv \<Longrightarrow>
   fill_names h p argv i =
     Some (Inr (take i argv @ map Some (buffers_at h as) @ drop (i + length as) argv, i + length as))"
proof (induction as arbitrary: p argv i)
  case Nil
  then show ?case by (simp add: fill_names.simps buffers_at_def)
next
  case (Cons a as)
  then obtain n where n: "p = Some a" "h a = Some n" "is_list h (next_ptr n) as"
    by auto
  let ?argv = "argv[i := Some (name n)]"
  have i: "i < length argv" using Cons.prems(2) by simp
  have b: "(i + 1) + length as \<le> length ?argv" using Cons.prems(2) by simp
  have "fill_names h p argv i = fill_names h (next_ptr n) ?argv (i + 1)"
    using n i by (subst fill_names.simps) simp
  also have "\<dots> = Some (Inr (take (i + 1) ?argv @ map Some (buffers_at h as) @ drop ((i + 1) + length as) ?argv,
                              (i + 1) + length as))"
    by (rule Cons.IH [OF n(3) b])
  also have "take (i + 1) ?argv = take i argv @ [Some (name n)]"
    using i by (simp add: take_Suc_conv_app_nth)
  also have "drop ((i + 1) + length as) ?argv = drop (i + length (a # as)) argv"
    by simp
  finally show ?case using n by (simp add: buffers_at_def)
qed

lemma store_arg_ok: "i < length argv \<Longrightarrow> store_arg argv i p = Some (Inr (argv[i := p]))"
  by (simp add: store_arg_def)

lemma names_at_buffers: "names_at h as = map c_str (buffers_at h as)"
  by (simp add: names_at_def buffers_at_def c_str_def split: option.splits)


lemma store_at_end:
  "i = length pre \<Longrightarrow> store_arg (pre @ replicate (Suc k) None) i x = Some (Inr ((pre @ [x]) @ replicate k None))"
  by (simp add: store_arg_def)

lemma fill_at_end:
  assumes "is_list h p as" "i = length pre"
  shows "fill_names h p (pre @ replicate (length as + j) None) i =
           Some (Inr ((pre @ map Some (buffers_at h as)) @ replicate j None, i + length as))"
  using fill_names_on_list [OF assms(1), of i "pre @ replicate (length as + j) None"] assms(2)
  by simp

lemma length_buffers_at: "length (buffers_at h as) = length as"
  by (simp add: buffers_at_def)

lemma serialize_on_rule:
  assumes c: "cc R = Some c" "compiler_mem mem c = Some C"
    and fs: "is_list (flag_mem mem) (flags C) fs"
    and t: "target R = Some t" "object_mem mem t = Some T"
    and ds: "is_list (object_mem mem) (dependencies R) ds"
    and bound: "int (length fs + length ds) + 5 \<le> INT_MAX"
  shows "serialize True mem R =
           Some (Inr (Argv (map Some ([cmd C] @ buffers_at (flag_mem mem) fs
                                      @ [''-o'' @ [NUL], output_name R, name T]
                                      @ buffers_at (object_mem mem) ds) @ [None])))"
proof -
  let ?n = "length fs" and ?m = "length ds"
  let ?F = "map Some (buffers_at (flag_mem mem) fs)" and ?D = "map Some (buffers_at (object_mem mem) ds)"
  let ?a1 = "[] @ [Some (cmd C)]"
  let ?a2 = "?a1 @ ?F"
  let ?a3 = "?a2 @ [Some (''-o'' @ [NUL])]"
  let ?a4 = "?a3 @ [Some (output_name R)]"
  let ?a5 = "?a4 @ [Some (name T)]"
  let ?a6 = "?a5 @ ?D"
  let ?a7 = "?a6 @ [None]"
  have c1: "count_items (flag_mem mem) (flags C) 0 = Some (Inr (int ?n))"
    using count_items_on_list [OF fs, of 0] bound by simp
  have c2: "count_items (object_mem mem) (dependencies R) (int ?n) = Some (Inr (int ?n + int ?m))"
    using count_items_on_list [OF ds, of "int ?n"] bound by simp
  have ov: "(int ?n + int ?m > INT_MAX - (1 + 1 + 1 + 1 + 1)) = False"
    using bound by simp
  have sz: "replicate (nat (int ?n + int ?m + (1 + 1 + 1 + 1 + 1))) None
              = [] @ replicate (Suc (?n + Suc (Suc (Suc (?m + Suc 0))))) (None :: cbuf option)"
  proof -
    have "nat (int ?n + int ?m + (1 + 1 + 1 + 1 + 1)) = Suc (?n + Suc (Suc (Suc (?m + Suc 0))))"
      by linarith
    then show ?thesis by (simp only: append_Nil)
  qed
  have s0: "store_arg ([] @ replicate (Suc (?n + Suc (Suc (Suc (?m + Suc 0))))) None) 0 (Some (cmd C))
              = Some (Inr (?a1 @ replicate (?n + Suc (Suc (Suc (?m + Suc 0)))) None))"
    by (rule store_at_end) simp
  have f1: "fill_names (flag_mem mem) (flags C) (?a1 @ replicate (?n + Suc (Suc (Suc (?m + Suc 0)))) None) 1
              = Some (Inr (?a2 @ replicate (Suc (Suc (Suc (?m + Suc 0)))) None, 1 + ?n))"
    by (rule fill_at_end [OF fs]) simp
  have s1: "store_arg (?a2 @ replicate (Suc (Suc (Suc (?m + Suc 0)))) None) (1 + ?n) (Some (''-o'' @ [NUL]))
              = Some (Inr (?a3 @ replicate (Suc (Suc (?m + Suc 0))) None))"
    by (rule store_at_end) (simp add: length_buffers_at)
  have s2: "store_arg (?a3 @ replicate (Suc (Suc (?m + Suc 0))) None) (1 + ?n + 1) (Some (output_name R))
              = Some (Inr (?a4 @ replicate (Suc (?m + Suc 0)) None))"
    by (rule store_at_end) (simp add: length_buffers_at)
  have s3: "store_arg (?a4 @ replicate (Suc (?m + Suc 0)) None) (1 + ?n + 2) (Some (name T))
              = Some (Inr (?a5 @ replicate (?m + Suc 0) None))"
    by (rule store_at_end) (simp add: length_buffers_at)
  have f2: "fill_names (object_mem mem) (dependencies R) (?a5 @ replicate (?m + Suc 0) None) (1 + ?n + 3)
              = Some (Inr (?a6 @ replicate (Suc 0) None, 1 + ?n + 3 + ?m))"
    by (rule fill_at_end [OF ds]) (simp add: length_buffers_at)
  have s4: "store_arg (?a6 @ replicate (Suc 0) None) (1 + ?n + 3 + ?m) None
              = Some (Inr (?a7 @ replicate 0 None))"
    by (rule store_at_end) (simp add: length_buffers_at)
  have "serialize True mem R = Some (Inr (Argv (?a7 @ replicate 0 None)))"
    by (simp only: serialize_def andthen_def deref_def c t c1 c2 ov sz s0 f1 s1 s2 s3 f2 s4
        option.case sum.case prod.case if_False if_True not_True_eq_False)
  then show ?thesis by simp
qed


lemma serialize_no_memory:
  assumes c: "cc R = Some c" "compiler_mem mem c = Some C"
    and fs: "is_list (flag_mem mem) (flags C) fs"
    and ds: "is_list (object_mem mem) (dependencies R) ds"
    and bound: "int (length fs + length ds) + 5 \<le> INT_MAX"
  shows "serialize False mem R = Some (Inr NoMemory)"
proof -
  let ?n = "length fs" and ?m = "length ds"
  have c1: "count_items (flag_mem mem) (flags C) 0 = Some (Inr (int ?n))"
    using count_items_on_list [OF fs, of 0] bound by simp
  have c2: "count_items (object_mem mem) (dependencies R) (int ?n) = Some (Inr (int ?n + int ?m))"
    using count_items_on_list [OF ds, of "int ?n"] bound by simp
  have ov: "(int ?n + int ?m > INT_MAX - (1 + 1 + 1 + 1 + 1)) = False"
    using bound by simp
  show ?thesis
    by (simp only: serialize_def andthen_def deref_def c c1 c2 ov
        option.case sum.case if_False if_True not_False_eq_True)
qed

lemma WTERMSIG_mod: "WTERMSIG status = status mod 128"
proof -
  have e: "(0x7f::int) = mask 7"
    by (simp add: mask_eq_exp_minus_1)
  have "status AND mask 7 = status mod 2 ^ 7"
    by (simp only: take_bit_eq_mask [symmetric] take_bit_eq_mod)
  then show ?thesis unfolding WTERMSIG_def e by simp
qed

lemma drop_push_8: "drop_bit 8 (push_bit 8 (x :: int)) = x"
  by (simp add: drop_bit_eq_div push_bit_eq_mult)

lemma WEXITSTATUS_div: "WEXITSTATUS status = (status div 256) mod 256"
proof -
  have e: "(0xff00::int) = push_bit 8 (mask 8)"
    by (simp add: mask_eq_exp_minus_1 push_bit_eq_mult)
  have "drop_bit 8 (status AND push_bit 8 (mask 8)) = drop_bit 8 status AND mask 8"
    by (simp only: drop_bit_and drop_push_8)
  also have "\<dots> = (status div 2 ^ 8) mod 2 ^ 8"
    by (simp only: take_bit_eq_mask [symmetric] take_bit_eq_mod drop_bit_eq_div)
  finally show ?thesis unfolding WEXITSTATUS_def e by simp
qed

lemma status_of_exit:
  "WIFEXITED (wait_status (Exited c))" "WEXITSTATUS (wait_status (Exited c)) = int c mod 256"
  by (simp_all add: WIFEXITED_def WTERMSIG_mod WEXITSTATUS_div)

lemma status_of_signal:
  "0 < sig \<Longrightarrow> sig < 127 \<Longrightarrow> \<not> WIFEXITED (wait_status (Signaled sig core))"
  by (auto simp: WIFEXITED_def WTERMSIG_mod)

lemma status_initial: "WIFEXITED 0 \<and> WEXITSTATUS 0 = 0"
  by (simp add: WIFEXITED_def WTERMSIG_mod WEXITSTATUS_div)

lemma BUILD_is_u_build:
  "BUILD e mem rule = u_build e mem rule"
  by (simp add: BUILD_def u_build_def split: option.splits)

lemma BUILD_on_complete_rule:
  assumes R: "rule_mem mem r = Some R"
    and c: "cc R = Some c" "compiler_mem mem c = Some C"
    and fs: "is_list (flag_mem mem) (flags C) fs"
    and t: "target R = Some t" "object_mem mem t = Some T"
    and ds: "is_list (object_mem mem) (dependencies R) ds" "ds \<noteq> []"
    and bound: "int (length fs + length ds) + 5 \<le> INT_MAX"
    and argv: "argv = map Some ([cmd C] @ buffers_at (flag_mem mem) fs
                                      @ [''-o'' @ [NUL], output_name R, name T]
                                      @ buffers_at (object_mem mem) ds) @ [None]"
    and status: "status = (if waitpid_ok e then wait_status (child_end e) else 0)"
  shows "BUILD e mem (Some r) =
           Some (Inr (if \<not> calloc_ok e then (- 1, [Perror ''calloc''])
                      else if \<not> fork_ok e then (- 1, [Fork, Perror ''fork''])
                      else (if WIFEXITED status \<and> WEXITSTATUS status = 0 then 0 else - 1,
                            [Fork] @ child_events e argv @ [Waitpid])))"
proof -
  have d: "dependencies R \<noteq> None" using ds by (cases ds) auto
  have v: "\<not> (cc R = None \<or> target R = None \<or> dependencies R = None)"
    using c t d by simp
  show ?thesis
  proof (cases "calloc_ok e")
    case False
    have "serialize (calloc_ok e) mem R = Some (Inr NoMemory)"
      using serialize_no_memory [OF c fs ds(1) bound] False by simp
    then show ?thesis using False R v
      by (simp add: BUILD_is_u_build u_build_def andthen_def)
  next
    case True
    have "serialize (calloc_ok e) mem R = Some (Inr (Argv argv))"
      using serialize_on_rule [OF c fs t ds(1) bound] True argv by simp
    then show ?thesis using True R v status
      by (simp add: BUILD_is_u_build u_build_def andthen_def Let_def)
  qed
qed


lemma example_lists:
  "is_list (flag_mem example_assembled) (flags example_compiler) [1, 2]"
  "is_list (object_mem example_assembled) (dependencies example_rule) [1, 2]"
  by (simp_all add: example_assembled_def example_compiler_def example_rule_def
      example_flags_def example_objects_def)

lemma example_rule_parts:
  "rule_mem example_assembled 1 = Some example_rule"
  "cc example_rule = Some 1"
  "compiler_mem example_assembled 1 = Some example_compiler"
  "target example_rule = Some 0"
  "object_mem example_assembled 0 = Some (OBJECT ''test/main.c'')"
  by (simp_all add: example_assembled_def example_rule_def example_objects_def)

lemma example_bound: "int (length [1, 2 :: addr] + length [1, 2 :: addr]) + 5 \<le> INT_MAX"
  by (simp add: INT_MAX_def)

lemma example_strings:
  "c_str (cmd example_compiler) = ''gcc''"
  "names_at (flag_mem example_assembled) [1, 2] = [''-Wall'', ''-Wextra'']"
  "c_str (output_name example_rule) = ''out''"
  "c_str (name (OBJECT ''test/main.c'')) = ''test/main.c''"
  "names_at (object_mem example_assembled) [1, 2] = [''test/foo.c'', ''test/bar.c'']"
  by (simp_all add: example_compiler_def example_rule_def example_assembled_def example_flags_def
      example_objects_def names_at_def c_str_def strncpy_def strlen_def OBJECT_def NUL_def
      CC_CAPACITY_def OBJECT_CAPACITY_def DEFAULT_CAPACITY_def)

text \<open>
  C1. For a complete rule whose flag list and dependency list are well formed, with n flags
  and m dependencies (n + m + 5 within \<open>int\<close>), and when \<open>calloc\<close> returns the array,
  the serialisation of \<open>__build\<close> ends with the vector
  [compiler command, flag 1 .. flag n, "-o", output, target name, dependency 1 ..
  dependency m, NULL], the entries pointing to these arrays of the rule, in this order; as
  strings they read CC, F1 .. Fn, -o, O, T, D1 .. Dm. The vector has exactly n + m + 5
  slots, and it is the vector that \<open>BUILD\<close> hands to \<open>execvp\<close> in the child.
\<close>

theorem serialized_argument_vector:
  assumes "rule_mem mem r = Some R"
    and "cc R = Some c" "compiler_mem mem c = Some C"
    and "is_list (flag_mem mem) (flags C) fs"
    and "target R = Some t" "object_mem mem t = Some T"
    and "is_list (object_mem mem) (dependencies R) ds" "ds \<noteq> []"
    and "int (length fs + length ds) + 5 \<le> INT_MAX"
  shows "\<exists>argv. serialize True mem R = Some (Inr (Argv argv))
           \<and> argv = map Some ([cmd C] @ buffers_at (flag_mem mem) fs
                               @ [''-o'' @ [NUL], output_name R, name T]
                               @ buffers_at (object_mem mem) ds) @ [None]
           \<and> map (map_option c_str) argv
               = map Some ([c_str (cmd C)] @ names_at (flag_mem mem) fs
                           @ [''-o'', c_str (output_name R), c_str (name T)]
                           @ names_at (object_mem mem) ds) @ [None]
           \<and> length argv = length fs + length ds + 5
           \<and> (calloc_ok e \<and> fork_ok e \<longrightarrow>
                (\<exists>v. BUILD e mem (Some r) = Some (Inr (v, [Fork] @ child_events e argv @ [Waitpid])))
                \<and> Execvp argv \<in> set (child_events e argv))"
proof -
  let ?argv = "map Some ([cmd C] @ buffers_at (flag_mem mem) fs
                               @ [''-o'' @ [NUL], output_name R, name T]
                               @ buffers_at (object_mem mem) ds) @ [None]"
  have 1: "serialize True mem R = Some (Inr (Argv ?argv))"
    by (rule serialize_on_rule [OF assms(2,3,4,5,6,7,9)])
  have o: "c_str [CHR ''-'', CHR ''o'', NUL] = ''-o''"
    by (simp add: c_str_def NUL_def)
  have 2: "map (map_option c_str) ?argv
               = map Some ([c_str (cmd C)] @ names_at (flag_mem mem) fs
                           @ [''-o'', c_str (output_name R), c_str (name T)]
                           @ names_at (object_mem mem) ds) @ [None]"
    by (simp add: names_at_buffers o comp_def)
  have 3: "length ?argv = length fs + length ds + 5"
    by (simp add: length_buffers_at)
  have 4: "calloc_ok e \<and> fork_ok e \<longrightarrow>
                (\<exists>v. BUILD e mem (Some r) = Some (Inr (v, [Fork] @ child_events e ?argv @ [Waitpid])))
                \<and> Execvp ?argv \<in> set (child_events e ?argv)"
    using BUILD_on_complete_rule [OF assms refl refl, of e]
    by (simp add: child_events_def)
  from 1 2 3 4 show ?thesis by blast
qed

theorem serialized_argument_vector_witness:
  "\<exists>argv. serialize True example_assembled example_rule = Some (Inr (Argv argv))
      \<and> map (map_option c_str) argv
          = map Some ([''gcc''] @ [''-Wall'', ''-Wextra''] @ [''-o'', ''out'', ''test/main.c'']
                      @ [''test/foo.c'', ''test/bar.c'']) @ [None]
      \<and> length argv = length [1, 2 :: addr] + length [1, 2 :: addr] + 5"
proof -
  have ne: "[1, 2 :: addr] \<noteq> []" by simp
  from serialized_argument_vector [OF example_rule_parts(1,2,3) example_lists(1)
      example_rule_parts(4,5) example_lists(2) ne example_bound]
  show ?thesis unfolding example_strings by blast
qed

section \<open>Properties of the outcome of a build and of failure reporting\<close>

lemma returned_BUILD_on_complete_rule:
  assumes R: "rule_mem mem r = Some R"
    and c: "cc R = Some c" "compiler_mem mem c = Some C"
    and fs: "is_list (flag_mem mem) (flags C) fs"
    and t: "target R = Some t" "object_mem mem t = Some T"
    and ds: "is_list (object_mem mem) (dependencies R) ds" "ds \<noteq> []"
    and bound: "int (length fs + length ds) + 5 \<le> INT_MAX"
    and status: "status = (if waitpid_ok e then wait_status (child_end e) else 0)"
  shows "returned (BUILD e mem (Some r)) =
           Some (if calloc_ok e \<and> fork_ok e \<and> WIFEXITED status \<and> WEXITSTATUS status = 0 then 0 else - 1)"
  unfolding BUILD_on_complete_rule [OF R c fs t ds bound refl status]
  by (simp add: returned_def)

text \<open>
  Whenever \<open>waitpid\<close> stores the status of the child, \<open>BUILD\<close> on a complete rule maps
  it as it should: 0 exactly when the array was allocated, the child was created and it
  ended by an exit with code 0; -1 after any other exit code, after a signal, after a failed
  \<open>execvp\<close>, \<open>fork\<close> or \<open>calloc\<close>.
\<close>

lemma BUILD_maps_stored_status:
  assumes "rule_mem mem r = Some R"
    and "cc R = Some c" "compiler_mem mem c = Some C"
    and "is_list (flag_mem mem) (flags C) fs"
    and "target R = Some t" "object_mem mem t = Some T"
    and "is_list (object_mem mem) (dependencies R) ds" "ds \<noteq> []"
    and "int (length fs + length ds) + 5 \<le> INT_MAX"
    and w: "waitpid_ok e"
    and sig: "\<And>s core. child_end e = Signaled s core \<Longrightarrow> 0 < s \<and> s < 127"
  shows "returned (BUILD e mem (Some r)) =
           Some (if calloc_ok e \<and> fork_ok e \<and> (\<exists>code. child_end e = Exited code \<and> code mod 256 = 0)
                 then 0 else - 1)"
proof -
  have "(WIFEXITED (wait_status (child_end e)) \<and> WEXITSTATUS (wait_status (child_end e)) = 0)
          = (\<exists>code. child_end e = Exited code \<and> code mod 256 = 0)"
  proof (cases "child_end e")
    case (Exited code)
    have "(int code mod 256 = 0) = (code mod 256 = 0)"
      by presburger
    with Exited show ?thesis by (simp add: status_of_exit del: wait_status.simps)
  next
    case (Signaled s core)
    with sig have "0 < s" "s < 127" by auto
    with Signaled show ?thesis by (simp add: status_of_signal del: wait_status.simps)
  qed
  with returned_BUILD_on_complete_rule [OF assms(1-9) refl, of e] w show ?thesis by simp
qed

lemma ne12: "[1, 2 :: addr] \<noteq> []"
  by simp

text \<open>
  C2. The rule of \<open>example.c\<close>, a compiler that exits with code 1, and a \<open>waitpid\<close> that
  fails: the status keeps its initial value 0, which reads as a normal exit with code 0, and
  \<open>BUILD\<close> returns 0.
\<close>

theorem BUILD_returns_success_when_waitpid_fails:
  "child_end env_waitpid_fails = Exited 1
   \<and> returned (BUILD env_waitpid_fails example_assembled (Some 1)) = Some 0"
proof -
  have "returned (BUILD env_waitpid_fails example_assembled (Some 1)) = Some 0"
    unfolding returned_BUILD_on_complete_rule [OF example_rule_parts(1,2,3) example_lists(1)
      example_rule_parts(4,5) example_lists(2) ne12 example_bound refl]
    by (simp add: env_waitpid_fails_def status_initial)
  then show ?thesis by (simp add: child_end_def env_waitpid_fails_def)
qed

lemma BUILD_compiler_fails:
  "returned (BUILD env_compiler_fails example_assembled (Some 1)) = Some (- 1)"
  unfolding returned_BUILD_on_complete_rule [OF example_rule_parts(1,2,3) example_lists(1)
      example_rule_parts(4,5) example_lists(2) ne12 example_bound refl]
  by (simp add: env_compiler_fails_def child_end_def WEXITSTATUS_div)

lemma BUILD_malformed:
  assumes "rule = None \<or> (\<exists>r R. rule = Some r \<and> rule_mem mem r = Some R
               \<and> (cc R = None \<or> target R = None \<or> dependencies R = None))"
  shows "BUILD e mem rule = Some (Inr (- 1, []))"
  using assms by (auto simp: BUILD_def)

text \<open>
  C3, as the claim states it, fails: \<open>BUILD\<close> on the rule that \<open>INIT_RULE\<close> left
  without compiler, target and dependencies returns the very value it returns for the
  complete rule whose compiler exits with code 1.
\<close>

theorem malformed_rule_not_distinct_counterexample:
  "returned (BUILD env_compiler_fails example_fresh (Some 1)) = Some (- 1)
   \<and> returned (BUILD env_compiler_fails example_assembled (Some 1)) = Some (- 1)"
proof -
  have "BUILD env_compiler_fails example_fresh (Some 1) = Some (Inr (- 1, []))"
    by (rule BUILD_malformed) (simp add: example_fresh_def)
  then have "returned (BUILD env_compiler_fails example_fresh (Some 1)) = Some (- 1)"
    by (simp add: returned_def)
  then show ?thesis by (simp only: BUILD_compiler_fails)
qed

text \<open>
  C3, amended. For an absent rule and for a rule without compiler, without target or with
  an empty dependency list, \<open>BUILD\<close> (and \<open>__build\<close>) returns -1, the value of every
  failure, and does nothing on the way: no allocation, no process, no diagnostic.
\<close>

theorem malformed_rule_fails_without_spawning:
  assumes "rule = None \<or> (\<exists>r R. rule = Some r \<and> rule_mem mem r = Some R
               \<and> (cc R = None \<or> target R = None \<or> dependencies R = None))"
  shows "BUILD e mem rule = Some (Inr (- 1, [])) \<and> u_build e mem rule = Some (Inr (- 1, []))"
  using BUILD_malformed [OF assms] by (simp add: BUILD_is_u_build)

theorem malformed_rule_fails_without_spawning_witness:
  "BUILD env_compiler_fails example_fresh (Some 1) = Some (Inr (- 1, []))
   \<and> u_build env_compiler_fails example_fresh None = Some (Inr (- 1, []))"
proof -
  have "\<exists>r R. Some (1::nat) = Some r \<and> rule_mem example_fresh r = Some R
               \<and> (cc R = None \<or> target R = None \<or> dependencies R = None)"
    by (simp add: example_fresh_def)
  from malformed_rule_fails_without_spawning [OF disjI2, OF this]
    malformed_rule_fails_without_spawning [OF disjI1, OF refl]
  show ?thesis by blast
qed


text \<open>The stores of the demonstration driver are what its calls produce.\<close>

lemma first_flag_appended:
  "ADD_FLAG (Some 1) Map.empty None (FLAG ''-Wall'') = Some (Inr (Some 1, example_one_flag))"
proof -
  have s: "strlen (name (FLAG ''-Wall'')) \<le> FLAG_CAPACITY - 1"
    by (simp add: strlen_def FLAG_def NUL_def FLAG_CAPACITY_def DEFAULT_CAPACITY_def)
  have st: "stored (FLAG ''-Wall'') = \<lparr>name = ''-Wall'' @ [NUL], next_ptr = None\<rparr>"
    by (simp add: stored_def strlen_def FLAG_def NUL_def FLAG_CAPACITY_def DEFAULT_CAPACITY_def)
  show ?thesis
    unfolding ADD_FLAG_def push_back_empty [OF s] st example_one_flag_def ..
qed

lemma example_compiler_set:
  "INIT_CC (Some 1) (example_fresh\<lparr>compiler_mem := Map.empty\<rparr>)
     = Inr (Some 1, example_fresh\<lparr>compiler_mem := [1 \<mapsto> \<lparr>cmd = [NUL], flags = None\<rparr>]\<rparr>)"
  "SET_CC (example_fresh\<lparr>compiler_mem := [1 \<mapsto> \<lparr>cmd = [NUL], flags = None\<rparr>]\<rparr>) (Some 1) ''gcc''
     = Inr example_fresh"
  by (simp_all add: INIT_CC_def SET_CC_def example_fresh_def)

lemma second_flag_appended:
  "ADD_FLAG (Some 2) example_one_flag (Some 1) (FLAG ''-Wextra'') = Some (Inr (Some 1, example_flags))"
proof -
  have l: "is_list example_one_flag (Some 1) [1]"
    by (simp add: example_one_flag_def)
  have n: "example_one_flag (last [1]) = Some \<lparr>name = ''-Wall'' @ [NUL], next_ptr = None\<rparr>"
    by (simp add: example_one_flag_def)
  have f: "2 \<notin> dom example_one_flag"
    by (simp add: example_one_flag_def)
  have s: "strlen (name (FLAG ''-Wextra'')) \<le> FLAG_CAPACITY - 1"
    by (simp add: strlen_def FLAG_def NUL_def FLAG_CAPACITY_def DEFAULT_CAPACITY_def)
  have st: "stored (FLAG ''-Wextra'') = \<lparr>name = ''-Wextra'' @ [NUL], next_ptr = None\<rparr>"
    by (simp add: stored_def strlen_def FLAG_def NUL_def FLAG_CAPACITY_def DEFAULT_CAPACITY_def)
  have h: "example_one_flag(2 \<mapsto> \<lparr>name = ''-Wextra'' @ [NUL], next_ptr = None\<rparr>,
             last [1] \<mapsto> \<lparr>name = ''-Wall'' @ [NUL], next_ptr = None\<rparr>\<lparr>next_ptr := Some 2\<rparr>) = example_flags"
    by (auto simp: example_one_flag_def example_flags_def fun_eq_iff)
  have "LIST_PUSH_BACK FLAG_CAPACITY (Some 2) example_one_flag (Some 1) (FLAG ''-Wextra'')
          = Some (Inr (Some 1, example_one_flag(2 \<mapsto> stored (FLAG ''-Wextra''),
                last [1] \<mapsto> \<lparr>name = ''-Wall'' @ [NUL], next_ptr = None\<rparr>\<lparr>next_ptr := Some 2\<rparr>)))"
    by (rule push_back_nonempty [OF l _ n f s]) simp
  then show ?thesis unfolding ADD_FLAG_def st h .
qed

text \<open>
  C6, as the claim states it, fails: a failed call and a successful call end in the same
  way and leave the same head and store, so nothing the caller receives tells them apart.
  An \<open>ADD_FLAG\<close> whose allocation fails on the two flags of \<open>example.c\<close> ends as the
  successful \<open>ADD_FLAG\<close> of the second flag does; a \<open>MAKE_RULE\<close> without dependencies
  on the assembled rule ends as the successful assembly does.
\<close>

theorem failure_not_signalled_counterexample:
  "ADD_FLAG None example_flags (Some 1) (FLAG ''-O2'') = Some (Inr (Some 1, example_flags))
   \<and> ADD_FLAG (Some 2) example_one_flag (Some 1) (FLAG ''-Wextra'') = Some (Inr (Some 1, example_flags))
   \<and> MAKE_RULE example_assembled (Some 1) (Some 1) (Some 1) (Some 0) None (Some ''out'') = Inr example_assembled
   \<and> MAKE_RULE example_fresh (Some 1) (Some 1) (Some 1) (Some 0) (Some 1) (Some ''out'') = Inr example_assembled"
proof -
  have l: "is_list example_flags (Some 1) [1, 2]"
    by (simp add: example_flags_def)
  have "ADD_FLAG None example_flags (Some 1) (FLAG ''-O2'') = Some (Inr (Some 1, example_flags))"
    unfolding ADD_FLAG_def by (rule push_back_rejected [OF l item_alloc_none])
  moreover have "MAKE_RULE example_assembled (Some 1) (Some 1) (Some 1) (Some 0) None (Some ''out'') = Inr example_assembled"
    by (simp add: MAKE_RULE_def)
  ultimately show ?thesis using second_flag_appended example_assembly by blast
qed

text \<open>
  The check of \<open>MAKE_RULE\<close> looks at the rule, the compiler and the dependency list, not
  at the target: with an absent target and the rest present the rule is written.
\<close>

lemma MAKE_RULE_writes_absent_target:
  "MAKE_RULE example_fresh (Some 1) (Some 1) (Some 1) None (Some 1) (Some ''out'')
     = Inr (example_assembled\<lparr>rule_mem := [1 \<mapsto> example_rule\<lparr>target := None\<rparr>]\<rparr>)"
  by (simp add: MAKE_RULE_def example_fresh_def example_assembled_def example_rule_def
      example_compiler_def SET_OUT_def Let_def)

text \<open>
  C6, amended. \<open>ADD_FLAG\<close>, \<open>ADD_OBJECT\<close> and \<open>MAKE_RULE\<close> return no value. An append
  that fails (allocation failure, name of 120 bytes or more) and an assembly that
  \<open>MAKE_RULE\<close> rejects (the rule reference, the compiler reference or the dependency list
  absent) return normally and leave the store as it was; the caller finds out only by
  looking at what it passed: after a failed append the head and the list are what they were
  (an empty list still has the head \<open>NULL\<close>, which a successful append sets to the new
  node); after a successful assembly the rule's compiler reference is the compiler passed.
  Of the operations only \<open>BUILD\<close> returns a failure value, -1. Nothing is said here of an
  assembly with an absent target, which \<open>MAKE_RULE\<close> does not reject.
\<close>

theorem failure_shows_only_in_the_state:
  assumes "is_list h HEAD as"
    and "m = None \<or> DEFAULT_CAPACITY \<le> strlen (name x)"
    and "\<forall>b. m = Some b \<longrightarrow> b \<notin> dom h"
    and "strlen (name y) < DEFAULT_CAPACITY"
    and "rule = None \<or> compiler = None \<or> deps = None"
    and "MAKE_RULE mem (Some r) (Some c) fl tg (Some d) out = Inr mem'"
  shows "ADD_FLAG m h HEAD x = Some (Inr (HEAD, h))
       \<and> ADD_OBJECT m h HEAD x = Some (Inr (HEAD, h))
       \<and> (\<exists>h'. ADD_FLAG (Some a) h None y = Some (Inr (Some a, h')))
       \<and> (\<exists>h'. ADD_OBJECT (Some a) h None y = Some (Inr (Some a, h')))
       \<and> MAKE_RULE mem rule compiler fl tg deps out = Inr mem
       \<and> map_option cc (rule_mem mem' r) = Some (Some c)
       \<and> BUILD e mem None = Some (Inr (- 1, []))"
proof -
  have al: "item_alloc DEFAULT_CAPACITY m h x = (None, h)"
  proof (cases m)
    case None
    then show ?thesis by (simp add: item_alloc_none)
  next
    case (Some b)
    with assms(2,3) have "b \<notin> dom h" "DEFAULT_CAPACITY - 1 < strlen (name x)"
      by (auto simp: DEFAULT_CAPACITY_def)
    with Some show ?thesis by (simp add: item_alloc_too_long)
  qed
  have 1: "LIST_PUSH_BACK DEFAULT_CAPACITY m h HEAD x = Some (Inr (HEAD, h))"
    by (rule push_back_rejected [OF assms(1) al])
  have "strlen (name y) \<le> DEFAULT_CAPACITY - 1" using assms(4) by simp
  then have 2: "LIST_PUSH_BACK DEFAULT_CAPACITY (Some a) h None y = Some (Inr (Some a, h(a \<mapsto> stored y)))"
    by (rule push_back_empty)
  have 3: "MAKE_RULE mem rule compiler fl tg deps out = Inr mem"
    using assms(5) by (simp add: MAKE_RULE_def)
  have 4: "map_option cc (rule_mem mem' r) = Some (Some c)"
    using assms(6) by (auto simp: MAKE_RULE_def SET_OUT_def Let_def split: option.splits)
  have 5: "BUILD e mem None = Some (Inr (- 1, []))"
    by (simp add: BUILD_def)
  from 1 2 3 4 5 show ?thesis
    by (simp add: ADD_FLAG_def ADD_OBJECT_def FLAG_CAPACITY_def OBJECT_CAPACITY_def)
qed

theorem failure_shows_only_in_the_state_witness:
  "ADD_FLAG (Some 1) Map.empty None \<lparr>name = replicate 120 CHR ''a'', next_ptr = None\<rparr> = Some (Inr (None, Map.empty))
   \<and> ADD_OBJECT (Some 1) Map.empty None \<lparr>name = replicate 120 CHR ''a'', next_ptr = None\<rparr> = Some (Inr (None, Map.empty))
   \<and> (\<exists>h'. ADD_FLAG (Some 1) Map.empty None (FLAG ''-Wall'') = Some (Inr (Some 1, h')))
   \<and> MAKE_RULE example_fresh (Some 1) (Some 1) (Some 1) (Some 0) None (Some ''out'') = Inr example_fresh
   \<and> map_option cc (rule_mem example_fresh 1) = Some None
   \<and> map_option cc (rule_mem example_assembled 1) = Some (Some 1)"
proof -
  have l: "is_list (Map.empty :: item_heap) None []"
    by simp
  have c: "DEFAULT_CAPACITY \<le> strlen (name \<lparr>name = replicate 120 CHR ''a'', next_ptr = None\<rparr>)"
    by (simp add: DEFAULT_CAPACITY_def strlen_def NUL_def)
  have f: "\<forall>b. Some (1::nat) = Some b \<longrightarrow> b \<notin> dom (Map.empty :: item_heap)"
    by simp
  have s: "strlen (name (FLAG ''-Wall'')) < DEFAULT_CAPACITY"
    by (simp add: strlen_def FLAG_def NUL_def FLAG_CAPACITY_def DEFAULT_CAPACITY_def)
  have r: "Some (1::nat) = None \<or> Some (1::nat) = None \<or> (None :: addr option) = None"
    by simp
  have "map_option cc (rule_mem example_fresh 1) = Some None"
    by (simp add: example_fresh_def)
  with failure_shows_only_in_the_state [where a = 1 and mem = example_fresh and fl = "Some 1"
      and tg = "Some 0" and out = "Some ''out''", OF l disjI2 f s r example_assembly, OF c]
  show ?thesis by blast
qed

end
